theory Spec2Isabelle
  imports Main "HOL-Library.Word" "HOL-Library.Sublist"
begin

section \<open>Strings and settings\<close>

text \<open>
  A JavaScript string is a sequence of UTF-16 code units. Every operation of
  \<^verbatim>\<open>public/scripts/reasoning.js\<close> that is modelled here (comparison, concatenation,
  \<^verbatim>\<open>trim\<close>, a regular expression without the \<^verbatim>\<open>u\<close> flag) works on code units, so a
  string is a list of 16-bit words. \<open>js\<close> writes an ASCII literal as such a list.
\<close>

type_synonym jschar = "16 word"
type_synonym jsstring = "jschar list"

definition js :: "string \<Rightarrow> jsstring" where
  "js s = map (\<lambda>c. of_nat (of_char c)) s"

text \<open>
  \<^verbatim>\<open>String.prototype.trim\<close> removes the code units of the ECMAScript productions
  WhiteSpace and LineTerminator from both ends: TAB, LF, VT, FF, CR, SP, NBSP,
  U+1680, U+2000 to U+200A, U+2028, U+2029, U+202F, U+205F, U+3000 and U+FEFF.
\<close>

definition isWhiteSpace :: "jschar \<Rightarrow> bool" where
  "isWhiteSpace c \<longleftrightarrow> c \<in> set [0x0009, 0x000A, 0x000B, 0x000C, 0x000D, 0x0020, 0x00A0,
      0x1680, 0x2000, 0x2001, 0x2002, 0x2003, 0x2004, 0x2005, 0x2006, 0x2007, 0x2008,
      0x2009, 0x200A, 0x2028, 0x2029, 0x202F, 0x205F, 0x3000, 0xFEFF]"

definition trim :: "jsstring \<Rightarrow> jsstring" where
  "trim s = rev (dropWhile isWhiteSpace (rev (dropWhile isWhiteSpace s)))"

text \<open>
  The settings object \<^verbatim>\<open>power_user\<close> of \<^verbatim>\<open>power-user.js\<close>, restricted to what
  this file reads. A field \<open>reasoning_x\<close> is \<^verbatim>\<open>power_user.reasoning.x\<close>. The three
  template strings may be unset (\<^verbatim>\<open>undefined\<close>), which is \<open>None\<close>; the code tests them
  with \<^verbatim>\<open>!x\<close> (\<open>falsy\<close>) and reads them with \<^verbatim>\<open>x || ''\<close> (\<open>orEmpty\<close>).
\<close>

record power_user =
  trim_spaces :: bool
  reasoning_add_to_prompts :: bool
  reasoning_prefix :: "jsstring option"
  reasoning_suffix :: "jsstring option"
  reasoning_separator :: "jsstring option"
  reasoning_max_additions :: int

definition falsy :: "jsstring option \<Rightarrow> bool" where
  "falsy x \<longleftrightarrow> (case x of None \<Rightarrow> True | Some s \<Rightarrow> s = [])"

definition orEmpty :: "jsstring option \<Rightarrow> jsstring" where
  "orEmpty x = (case x of None \<Rightarrow> [] | Some s \<Rightarrow> s)"

section \<open>PromptReasoning: the bounded injection counter\<close>

text \<open>
  \<^verbatim>\<open>class PromptReasoning\<close> holds one number, \<^verbatim>\<open>counter\<close>, set to 0 by the
  constructor. \<^verbatim>\<open>REASONING_PLACEHOLDER\<close> is the one-unit string U+200B.
\<close>

record PromptReasoning =
  counter :: int

definition REASONING_PLACEHOLDER :: jsstring where
  "REASONING_PLACEHOLDER = [0x200B]"

definition new_PromptReasoning :: PromptReasoning where
  "new_PromptReasoning = \<lparr>counter = 0\<rparr>"

definition isLimitReached :: "power_user \<Rightarrow> PromptReasoning \<Rightarrow> bool" where
  "isLimitReached pu this =
     (if \<not> reasoning_add_to_prompts pu then True
      else reasoning_max_additions pu \<le> counter this)"

text \<open>
  \<^verbatim>\<open>addToMessage(content, reasoning, isPrefix)\<close> returns a string and may increment
  \<^verbatim>\<open>this.counter\<close>: the model returns the string and the updated object.
  \<^verbatim>\<open>substituteParams\<close> is imported from \<^verbatim>\<open>script.js\<close>, which is not among the
  sources at hand: it is the first parameter.
\<close>

definition addToMessage ::
  "(jsstring \<Rightarrow> jsstring) \<Rightarrow> power_user \<Rightarrow> jsstring \<Rightarrow> jsstring \<Rightarrow> bool \<Rightarrow> PromptReasoning
     \<Rightarrow> jsstring \<times> PromptReasoning" where
  "addToMessage substituteParams pu content reasoning isPrefix this =
     (if \<not> isPrefix \<and>
         (\<not> reasoning_add_to_prompts pu \<or> reasoning_max_additions pu \<le> counter this)
      then (content, this)
      else if reasoning = [] \<or> reasoning = REASONING_PLACEHOLDER
      then (content, this)
      else
        let this' = this\<lparr>counter := counter this + 1\<rparr>;
            pre = substituteParams (orEmpty (reasoning_prefix pu));
            separator = substituteParams (orEmpty (reasoning_separator pu));
            suf = substituteParams (orEmpty (reasoning_suffix pu))
        in if isPrefix \<and> content = []
           then (pre @ reasoning, this')
           else (pre @ reasoning @ suf @ separator @ content, this'))"

section \<open>ReasoningHandler: the streaming tracker\<close>

text \<open>
  The two exceptions that can arise in the modelled code: a \<^verbatim>\<open>TypeError\<close> when a
  property of \<^verbatim>\<open>undefined\<close> is read or written, and the \<^verbatim>\<open>SyntaxError\<close> of the
  \<^verbatim>\<open>RegExp\<close> constructor.
\<close>

datatype js_error = TypeError | SyntaxError

text \<open>
  A \<^verbatim>\<open>Date\<close> is its time value in milliseconds. A \<^verbatim>\<open>Date\<close> object is always truthy,
  so \<^verbatim>\<open>this.startTime && this.endTime\<close> only asks whether both fields are set.
\<close>

datatype Date = Date (getTime: int)

text \<open>
  \<^verbatim>\<open>class ReasoningHandler\<close>. The nullable fields \<^verbatim>\<open>startTime\<close> and \<^verbatim>\<open>endTime\<close> are
  options; \<open>gen_type\<close> is the field \<^verbatim>\<open>type\<close>, \<open>isHidden\<close> the private field
  \<^verbatim>\<open>#isHidden\<close>, and \<open>StateNone\<close> the enum value \<^verbatim>\<open>ReasoningState.None\<close>. The four
  cached DOM elements and every DOM update are left out: no field below depends
  on them. The constructor stores the result of \<^verbatim>\<open>isHiddenReasoningModel()\<close>, which
  reads the API settings of other modules; that result is the constructor's first
  parameter here.
\<close>

datatype ReasoningState = StateNone | Thinking | Done | Hidden

record ReasoningHandler =
  state :: ReasoningState
  reasoning :: jsstring
  startTime :: "Date option"
  endTime :: "Date option"
  gen_type :: jsstring
  initialTime :: Date
  isHidden :: bool

definition new_ReasoningHandler :: "bool \<Rightarrow> jsstring \<Rightarrow> Date \<Rightarrow> ReasoningHandler" where
  "new_ReasoningHandler isHiddenReasoningModel ty timeStarted =
     \<lparr>state = StateNone, reasoning = [], startTime = None, endTime = None,
      gen_type = ty, initialTime = timeStarted, isHidden = isHiddenReasoningModel\<rparr>"

definition getDuration :: "ReasoningHandler \<Rightarrow> int option" where
  "getDuration this =
     (case startTime this of
        None \<Rightarrow> None
      | Some s \<Rightarrow> (case endTime this of None \<Rightarrow> None | Some e \<Rightarrow> Some (getTime e - getTime s)))"

text \<open>
  \<^verbatim>\<open>updateReasoning(reasoning = null)\<close> replaces \<^verbatim>\<open>this.reasoning\<close> by the regex-processed
  argument, or by the regex-processed current text when called without one.
  \<^verbatim>\<open>getRegexedString\<close> with the placement \<^verbatim>\<open>REASONING\<close> belongs to the regex
  extension, which is not among the sources at hand: it is a parameter.
\<close>

definition updateReasoning ::
  "(jsstring \<Rightarrow> jsstring) \<Rightarrow> jsstring option \<Rightarrow> ReasoningHandler \<Rightarrow> ReasoningHandler" where
  "updateReasoning getRegexedString arg this =
     this\<lparr>reasoning := getRegexedString (case arg of None \<Rightarrow> reasoning this | Some r \<Rightarrow> r)\<rparr>"

text \<open>
  The array \<^verbatim>\<open>chat\<close> of \<^verbatim>\<open>script.js\<close>, restricted to what the tracker touches: each
  message has an optional \<^verbatim>\<open>extra\<close> object with the entries \<^verbatim>\<open>reasoning\<close> and
  \<^verbatim>\<open>reasoning_duration\<close> (\<open>None\<close> is \<^verbatim>\<open>undefined\<close> or \<^verbatim>\<open>null\<close>). An index outside
  the list reads \<^verbatim>\<open>undefined\<close>.
\<close>

record extra =
  extra_reasoning :: "jsstring option"
  extra_reasoning_duration :: "int option"

record message =
  msg_extra :: "extra option"

text \<open>
  \<^verbatim>\<open>eventSource.emit(event_types.STREAM_REASONING_DONE, finalReasoning, () => this.getDuration())\<close>
  is recorded as an event that carries the text and the resolver. The resolver
  reads the handler when it is called, so it is the function \<open>getDuration\<close> itself.
\<close>

datatype event = STREAM_REASONING_DONE jsstring "ReasoningHandler \<Rightarrow> int option"

text \<open>
  What a call of the tracker reads and writes: the handler, the chat array and
  the events emitted so far.
\<close>

record world =
  handler :: ReasoningHandler
  chat :: "message list"
  emitted :: "event list"

text \<open>
  \<^verbatim>\<open>power_user.trim_spaces ? this.reasoning.trim() : this.reasoning\<close>, computed by both
  \<^verbatim>\<open>process\<close> and \<^verbatim>\<open>finish\<close>.
\<close>

definition finalReasoning :: "power_user \<Rightarrow> ReasoningHandler \<Rightarrow> jsstring" where
  "finalReasoning pu this = (if trim_spaces pu then trim (reasoning this) else reasoning this)"

text \<open>
  \<^verbatim>\<open>updateTime(messageId)\<close> writes \<^verbatim>\<open>chat[messageId]['extra']['reasoning_duration']\<close>.
  It throws a \<^verbatim>\<open>TypeError\<close> when the message or its \<^verbatim>\<open>extra\<close> is missing. A method
  returns the exception, if any, and the state reached when it was thrown.
\<close>

definition updateTime :: "nat \<Rightarrow> world \<Rightarrow> js_error option \<times> world" where
  "updateTime messageId w =
     (let duration = getDuration (handler w) in
      if \<not> messageId < length (chat w) then (Some TypeError, w)
      else
        case msg_extra (chat w ! messageId) of
          None \<Rightarrow> (Some TypeError, w)
        | Some ex \<Rightarrow>
            (None, w\<lparr>chat := (chat w)[messageId :=
               (chat w ! messageId)\<lparr>msg_extra := Some (ex\<lparr>extra_reasoning_duration := duration\<rparr>)\<rparr>]\<rparr>))"

text \<open>
  \<^verbatim>\<open>process(messageId, mesChanged, currentTime)\<close>, statement by statement: the early
  return, \<^verbatim>\<open>updateReasoning()\<close>, the lazily created \<^verbatim>\<open>extra\<close>, the comparison with
  the stored text, the two guarded assignments of \<^verbatim>\<open>startTime\<close> and \<^verbatim>\<open>endTime\<close> (the
  second with its event) and \<^verbatim>\<open>updateTime\<close>.
\<close>

definition process ::
  "(jsstring \<Rightarrow> jsstring) \<Rightarrow> power_user \<Rightarrow> nat \<Rightarrow> bool \<Rightarrow> Date \<Rightarrow> world
     \<Rightarrow> js_error option \<times> world" where
  "process getRegexedString pu messageId mesChanged currentTime w =
     (if reasoning (handler w) = [] \<and> \<not> isHidden (handler w) then (None, w)
      else
        let h1 = updateReasoning getRegexedString None (handler w) in
        if \<not> messageId < length (chat w) then (Some TypeError, w\<lparr>handler := h1\<rparr>)
        else
          let m = chat w ! messageId;
              ex = (case msg_extra m of
                      None \<Rightarrow> \<lparr>extra_reasoning = None, extra_reasoning_duration = None\<rparr>
                    | Some e \<Rightarrow> e);
              final = finalReasoning pu h1;
              reasoningChanged = (extra_reasoning ex \<noteq> Some final);
              chat1 = (chat w)[messageId := m\<lparr>msg_extra := Some (ex\<lparr>extra_reasoning := Some final\<rparr>)\<rparr>];
              h2 = (if (isHidden h1 \<or> reasoningChanged) \<and> startTime h1 = None
                    then h1\<lparr>startTime := Some (initialTime h1)\<rparr> else h1);
              finished = ((isHidden h2 \<or> \<not> reasoningChanged) \<and> mesChanged \<and>
                          startTime h2 \<noteq> None \<and> endTime h2 = None);
              h3 = (if finished then h2\<lparr>endTime := Some currentTime\<rparr> else h2);
              emitted1 = (if finished then emitted w @ [STREAM_REASONING_DONE final getDuration]
                          else emitted w)
          in updateTime messageId \<lparr>handler = h3, chat = chat1, emitted = emitted1\<rparr>)"

text \<open>
  \<^verbatim>\<open>finish(messageId)\<close>; the parameter \<open>now\<close> is the value of \<^verbatim>\<open>new Date()\<close>.
\<close>

definition finish :: "power_user \<Rightarrow> nat \<Rightarrow> Date \<Rightarrow> world \<Rightarrow> js_error option \<times> world" where
  "finish pu messageId now w =
     (if startTime (handler w) \<noteq> None \<and> endTime (handler w) = None
      then
        let h1 = (handler w)\<lparr>endTime := Some now\<rparr>;
            final = finalReasoning pu h1
        in updateTime messageId
             (w\<lparr>handler := h1, emitted := emitted w @ [STREAM_REASONING_DONE final getDuration]\<rparr>)
      else (None, w))"

text \<open>
  A session is a handler fresh from its constructor, an empty event log, and a
  sequence of calls. Each call carries the values of the globals it reads, which
  may differ from call to call. \<open>ChatWrite\<close> stands for other code writing the chat
  array between two calls. An exception ends the call that threw it and leaves
  the state as it was at the throw; the session goes on.
\<close>

datatype call =
    UpdateReasoning "jsstring \<Rightarrow> jsstring" "jsstring option"
  | Process "jsstring \<Rightarrow> jsstring" power_user nat bool Date
  | Finish power_user nat Date
  | ChatWrite "message list \<Rightarrow> message list"

fun step :: "call \<Rightarrow> world \<Rightarrow> world" where
  "step (UpdateReasoning g arg) w = w\<lparr>handler := updateReasoning g arg (handler w)\<rparr>"
| "step (Process g pu messageId mesChanged currentTime) w =
     snd (process g pu messageId mesChanged currentTime w)"
| "step (Finish pu messageId now) w = snd (finish pu messageId now w)"
| "step (ChatWrite f) w = w\<lparr>chat := f (chat w)\<rparr>"

definition run :: "call list \<Rightarrow> world \<Rightarrow> world" where
  "run cs w = fold step cs w"

definition session_start :: "bool \<Rightarrow> jsstring \<Rightarrow> Date \<Rightarrow> message list \<Rightarrow> world" where
  "session_start isHiddenReasoningModel ty timeStarted chat0 =
     \<lparr>handler = new_ReasoningHandler isHiddenReasoningModel ty timeStarted,
      chat = chat0, emitted = []\<rparr>"

text \<open>
  Vocabulary for the properties: the text stored on the message before a cycle,
  whether the cycle's comparison \<^verbatim>\<open>extra['reasoning'] !== finalReasoning\<close> will be
  true, and the invariant that ties the event log to \<^verbatim>\<open>endTime\<close>.
\<close>

definition storedReasoning :: "nat \<Rightarrow> world \<Rightarrow> jsstring option" where
  "storedReasoning messageId w =
     (case msg_extra (chat w ! messageId) of None \<Rightarrow> None | Some ex \<Rightarrow> extra_reasoning ex)"

definition reasoningChangedThisCycle ::
  "(jsstring \<Rightarrow> jsstring) \<Rightarrow> power_user \<Rightarrow> nat \<Rightarrow> world \<Rightarrow> bool" where
  "reasoningChangedThisCycle g pu i w \<longleftrightarrow>
     storedReasoning i w \<noteq> Some (finalReasoning pu (updateReasoning g None (handler w)))"

definition finalized_or_silent :: "world \<Rightarrow> bool" where
  "finalized_or_silent w \<longleftrightarrow>
     (if endTime (handler w) = None then emitted w = []
      else startTime (handler w) \<noteq> None \<and> length (emitted w) = 1)"

section \<open>parseReasoningFromString: the extraction parser\<close>

text \<open>
  Modelled from the spec: \<^verbatim>\<open>escapeRegex\<close> is imported from \<^verbatim>\<open>utils.js\<close>, which is not
  among the sources at hand. The spec (4.1) says that "the implementation escapes
  literal metacharacters before constructing the pattern": every metacharacter of
  the class \<^verbatim>\<open>[/\-\\^$*+?.()|[\]{}]\<close> gets a backslash (0x5C) in front of it.
  \<^verbatim>\<open>parseReasoningFromString\<close> below takes the escaping function as a parameter.
\<close>

definition needsEscape :: "jschar \<Rightarrow> bool" where
  "needsEscape c \<longleftrightarrow> c = 0x5C \<or> c \<in> set (js ''/-^$*+?.()|[]{}'')"

fun escapeRegex :: "jsstring \<Rightarrow> jsstring" where
  "escapeRegex [] = []"
| "escapeRegex (c # cs) =
     (if needsEscape c then 0x5C # c # escapeRegex cs else c # escapeRegex cs)"

text \<open>
  The built-in \<^verbatim>\<open>new RegExp(source, 's')\<close>, for the fragment of the pattern syntax
  that this file can build: pattern characters, a backslash followed by a syntax
  character, \<^verbatim>\<open>/\<close> or \<^verbatim>\<open>-\<close> (an identity escape), and the group \<^verbatim>\<open>(.*?)\<close>, whose dot
  matches every code unit under the flag \<^verbatim>\<open>s\<close>. Every other source text is answered
  with \<^verbatim>\<open>SyntaxError\<close>; among them are the texts that JavaScript rejects (a lone
  \<^verbatim>\<open>(\<close>, a pattern ending in a backslash) and texts outside the fragment.
  \<open>RegExp_source\<close> below shows that the escaped prefix and suffix never leave the
  fragment.
\<close>

definition isSyntaxCharacter :: "jschar \<Rightarrow> bool" where
  "isSyntaxCharacter c \<longleftrightarrow> c = 0x5C \<or> c \<in> set (js ''^$.*+?()[]{}|'')"

datatype atom = PatternCharacter jschar | LazyDotAllGroup

definition andThen :: "atom \<Rightarrow> js_error + atom list \<Rightarrow> js_error + atom list" where
  "andThen a r = (case r of Inl e \<Rightarrow> Inl e | Inr as \<Rightarrow> Inr (a # as))"

function RegExp :: "jsstring \<Rightarrow> js_error + atom list" where
  "RegExp [] = Inr []"
| "RegExp (c # cs) =
     (if c = 0x5C then
        (case cs of
           [] \<Rightarrow> Inl SyntaxError
         | d # ds \<Rightarrow>
             if isSyntaxCharacter d \<or> d = 0x2F \<or> d = 0x2D
             then andThen (PatternCharacter d) (RegExp ds)
             else Inl SyntaxError)
      else if c = 0x28 then
        (if take 4 cs = js ''.*?)''
         then andThen LazyDotAllGroup (RegExp (drop 4 cs))
         else Inl SyntaxError)
      else if isSyntaxCharacter c then Inl SyntaxError
      else andThen (PatternCharacter c) (RegExp cs))"
  by pat_completeness auto
termination
  by (relation "measure length") auto

text \<open>
  Matching as the backtracking matcher of the language does it. \<open>matchAt\<close> matches
  a pattern at the start of a string and returns the captures and the rest; the
  lazy group first tries to go on with nothing consumed and takes one more code
  unit only when that fails. \<open>exec\<close> tries the start positions from left to right
  and returns the text before the match, the captures and the text after it.
\<close>

fun matchAt :: "atom list \<Rightarrow> jsstring \<Rightarrow> (jsstring list \<times> jsstring) option" where
  "matchAt [] str = Some ([], str)"
| "matchAt (PatternCharacter c # as) [] = None"
| "matchAt (PatternCharacter c # as) (x # xs) = (if x = c then matchAt as xs else None)"
| "matchAt (LazyDotAllGroup # as) str =
     (case matchAt as str of
        Some (captures, rest) \<Rightarrow> Some ([] # captures, rest)
      | None \<Rightarrow>
          (case str of
             [] \<Rightarrow> None
           | x # xs \<Rightarrow>
               (case matchAt (LazyDotAllGroup # as) xs of
                  None \<Rightarrow> None
                | Some (captures, rest) \<Rightarrow> Some ((x # hd captures) # tl captures, rest))))"

fun exec :: "atom list \<Rightarrow> jsstring \<Rightarrow> (jsstring \<times> jsstring list \<times> jsstring) option" where
  "exec regex [] =
     (case matchAt regex [] of
        Some (captures, rest) \<Rightarrow> Some ([], captures, rest)
      | None \<Rightarrow> None)"
| "exec regex (x # xs) =
     (case matchAt regex (x # xs) of
        Some (captures, rest) \<Rightarrow> Some ([], captures, rest)
      | None \<Rightarrow>
          (case exec regex xs of
             None \<Rightarrow> None
           | Some (before, captures, rest) \<Rightarrow> Some (x # before, captures, rest)))"

text \<open>
  \<^verbatim>\<open>parseReasoningFromString(str)\<close>. The callback of \<^verbatim>\<open>String.prototype.replace\<close> runs
  for the first match only (the pattern has no \<^verbatim>\<open>g\<close> flag), sets \<^verbatim>\<open>didReplace\<close> and
  \<^verbatim>\<open>reasoning\<close> and returns the empty string, so the content is the text before
  the match followed by the text after it. The \<^verbatim>\<open>catch\<close> clause turns an exception
  into \<^verbatim>\<open>null\<close>, which is \<open>None\<close>. A match without a capture cannot arise from a
  pattern with the group and is answered with \<open>None\<close>.
\<close>

record ParsedReasoning =
  parsed_reasoning :: jsstring
  parsed_content :: jsstring

definition parseReasoningFromString ::
  "(jsstring \<Rightarrow> jsstring) \<Rightarrow> power_user \<Rightarrow> jsstring \<Rightarrow> ParsedReasoning option" where
  "parseReasoningFromString escapeRegex' pu str =
     (if falsy (reasoning_prefix pu) \<or> falsy (reasoning_suffix pu) then None
      else
        case RegExp (escapeRegex' (the (reasoning_prefix pu)) @ js ''(.*?)'' @
                     escapeRegex' (the (reasoning_suffix pu))) of
          Inl error \<Rightarrow> None
        | Inr regex \<Rightarrow>
            (case exec regex str of
               None \<Rightarrow> Some \<lparr>parsed_reasoning = [], parsed_content = str\<rparr>
             | Some (before, captures, after) \<Rightarrow>
                 (case captures of
                    [] \<Rightarrow> None
                  | captureGroup # _ \<Rightarrow>
                      if trim_spaces pu
                      then Some \<lparr>parsed_reasoning = trim captureGroup,
                                 parsed_content = trim (before @ after)\<rparr>
                      else Some \<lparr>parsed_reasoning = captureGroup,
                                 parsed_content = before @ after\<rparr>)))"

text \<open>
  The words of the specification: the prefix followed, after any text (line
  breaks included), by the suffix occurs in a string. \<open>find_first\<close> splits a string
  at the first occurrence of a substring; the proofs below describe the matcher
  with it.
\<close>

definition span_occurs :: "jsstring \<Rightarrow> jsstring \<Rightarrow> jsstring \<Rightarrow> bool" where
  "span_occurs p s str \<longleftrightarrow> (\<exists>a r b. str = a @ p @ r @ s @ b)"

fun find_first :: "jsstring \<Rightarrow> jsstring \<Rightarrow> (jsstring \<times> jsstring) option" where
  "find_first needle [] = (if needle = [] then Some ([], []) else None)"
| "find_first needle (x # xs) =
     (if prefix needle (x # xs) then Some ([], drop (length needle) (x # xs))
      else case find_first needle xs of
             None \<Rightarrow> None
           | Some (before, after) \<Rightarrow> Some (x # before, after))"

text \<open>
  Example values: settings with prefix \<^verbatim>\<open>PRE\<close> and suffix \<^verbatim>\<open>SUF\<close>, a fresh session for
  one message without \<^verbatim>\<open>extra\<close> whose generation started at time 100, and a first
  cycle in which the reasoning text \<^verbatim>\<open>abc\<close> arrives.
\<close>

definition demo_settings :: "bool \<Rightarrow> power_user" where
  "demo_settings trim_on =
     \<lparr>trim_spaces = trim_on, reasoning_add_to_prompts = True,
      reasoning_prefix = Some (js ''PRE''), reasoning_suffix = Some (js ''SUF''),
      reasoning_separator = Some (js ''|''), reasoning_max_additions = 2\<rparr>"

definition demo_start :: world where
  "demo_start = session_start False (js ''normal'') (Date 100) [\<lparr>msg_extra = None\<rparr>]"

definition demo_thinking :: "call list" where
  "demo_thinking =
     [UpdateReasoning id (Some (js ''abc'')), Process id (demo_settings False) 0 False (Date 150)]"

text \<open>
  A session on a message that already carries the reasoning text \<^verbatim>\<open>abc\<close> (a
  generation that continues it), after the text \<^verbatim>\<open> abc \<close> with a blank on each side
  has arrived.
\<close>

definition demo_continue :: world where
  "demo_continue =
     run [UpdateReasoning id (Some (js '' abc ''))]
       (session_start False (js ''continue'') (Date 100)
          [\<lparr>msg_extra = Some \<lparr>extra_reasoning = Some (js ''abc''),
                                extra_reasoning_duration = None\<rparr>\<rparr>])"

section \<open>Properties of PromptReasoning\<close>

lemma js_simps:
  "js [] = []"
  "js (c # cs) = of_nat (of_char c) # js cs"
  by (simp_all add: js_def)

text \<open>
  C9. With add-to-prompts enabled and at most 2 additions, three consecutive calls
  on a fresh instance with \<open>isPrefix\<close> false and a reasoning that is neither empty nor
  the placeholder return the combination prefix, reasoning, suffix, separator,
  content (the three settings after macro substitution) on the first two calls,
  which bring the counter to 1 and to 2, and the content unchanged on the third,
  which leaves the counter at 2; \<^verbatim>\<open>isLimitReached\<close> is false before the second
  addition and true after it. Whatever the settings, the counter and \<open>isPrefix\<close>,
  a call whose reasoning is empty or the placeholder returns the content unchanged
  and leaves the counter as it was.
\<close>

theorem addToMessage_three_calls_limit_two:
  "(reasoning_add_to_prompts pu \<and> reasoning_max_additions pu = 2 \<and>
    r1 \<noteq> [] \<and> r1 \<noteq> REASONING_PLACEHOLDER \<and>
    r2 \<noteq> [] \<and> r2 \<noteq> REASONING_PLACEHOLDER \<and>
    r3 \<noteq> [] \<and> r3 \<noteq> REASONING_PLACEHOLDER \<longrightarrow>
    (let (o1, p1) = addToMessage sp pu c1 r1 False new_PromptReasoning;
         (o2, p2) = addToMessage sp pu c2 r2 False p1;
         (o3, p3) = addToMessage sp pu c3 r3 False p2
     in o1 = sp (orEmpty (reasoning_prefix pu)) @ r1 @ sp (orEmpty (reasoning_suffix pu))
              @ sp (orEmpty (reasoning_separator pu)) @ c1 \<and>
        counter p1 = 1 \<and>
        o2 = sp (orEmpty (reasoning_prefix pu)) @ r2 @ sp (orEmpty (reasoning_suffix pu))
              @ sp (orEmpty (reasoning_separator pu)) @ c2 \<and>
        counter p2 = 2 \<and>
        o3 = c3 \<and> counter p3 = 2 \<and>
        \<not> isLimitReached pu new_PromptReasoning \<and> \<not> isLimitReached pu p1 \<and>
        isLimitReached pu p2 \<and> isLimitReached pu p3)) \<and>
   (r = [] \<or> r = REASONING_PLACEHOLDER \<longrightarrow>
      addToMessage sp pu' c r isPrefix this = (c, this))"
  by (simp add: addToMessage_def isLimitReached_def new_PromptReasoning_def Let_def)

theorem addToMessage_three_calls_limit_two_witness:
  "(let pu = \<lparr>trim_spaces = False, reasoning_add_to_prompts = True,
               reasoning_prefix = Some (js ''<think>''), reasoning_suffix = Some (js ''</think>''),
               reasoning_separator = Some (js ''|''), reasoning_max_additions = 2\<rparr>;
        (o1, p1) = addToMessage id pu (js ''a'') (js ''r'') False new_PromptReasoning;
        (o2, p2) = addToMessage id pu (js ''b'') (js ''s'') False p1;
        (o3, p3) = addToMessage id pu (js ''c'') (js ''t'') False p2
    in o1 = js ''<think>r</think>|a'' \<and> counter p1 = 1 \<and>
       o2 = js ''<think>s</think>|b'' \<and> counter p2 = 2 \<and>
       o3 = js ''c'' \<and> counter p3 = 2) \<and>
   addToMessage id \<lparr>trim_spaces = False, reasoning_add_to_prompts = True,
               reasoning_prefix = Some (js ''<think>''), reasoning_suffix = Some (js ''</think>''),
               reasoning_separator = Some (js ''|''), reasoning_max_additions = 2\<rparr>
     (js ''a'') REASONING_PLACEHOLDER True \<lparr>counter = 0\<rparr> = (js ''a'', \<lparr>counter = 0\<rparr>)"
  using addToMessage_three_calls_limit_two
    [of "\<lparr>trim_spaces = False, reasoning_add_to_prompts = True,
               reasoning_prefix = Some (js ''<think>''), reasoning_suffix = Some (js ''</think>''),
               reasoning_separator = Some (js ''|''), reasoning_max_additions = 2\<rparr>"
        "js ''r''" "js ''s''" "js ''t''" id "js ''a''" "js ''b''" "js ''c''"
        REASONING_PLACEHOLDER
        "\<lparr>trim_spaces = False, reasoning_add_to_prompts = True,
               reasoning_prefix = Some (js ''<think>''), reasoning_suffix = Some (js ''</think>''),
               reasoning_separator = Some (js ''|''), reasoning_max_additions = 2\<rparr>"
        "js ''a''" True "\<lparr>counter = 0\<rparr>"]
  by (simp add: js_simps REASONING_PLACEHOLDER_def orEmpty_def Let_def split_beta)

text \<open>
  C10. A call with \<open>isPrefix\<close> true and a reasoning that is neither empty nor the
  placeholder injects the reasoning and increments the counter whatever the
  add-to-prompts switch and the counter are, also when the limit is reached. With
  an empty content the result is prefix and reasoning alone, without suffix and
  separator; otherwise it is the full combination. The increment counts against
  the limit: when it brings the counter to the maximum, the next non-prefix call
  returns its content unchanged.
\<close>

theorem addToMessage_isPrefix_ignores_limit:
  "r \<noteq> [] \<and> r \<noteq> REASONING_PLACEHOLDER \<longrightarrow>
     addToMessage sp pu c r True this =
       (if c = [] then sp (orEmpty (reasoning_prefix pu)) @ r
        else sp (orEmpty (reasoning_prefix pu)) @ r @ sp (orEmpty (reasoning_suffix pu))
               @ sp (orEmpty (reasoning_separator pu)) @ c,
        this\<lparr>counter := counter this + 1\<rparr>) \<and>
     (reasoning_max_additions pu \<le> counter this + 1 \<longrightarrow>
        addToMessage sp pu c' r' False (this\<lparr>counter := counter this + 1\<rparr>) =
          (c', this\<lparr>counter := counter this + 1\<rparr>))"
  by (simp add: addToMessage_def Let_def)

theorem addToMessage_isPrefix_ignores_limit_witness:
  "addToMessage id \<lparr>trim_spaces = False, reasoning_add_to_prompts = False,
               reasoning_prefix = Some (js ''<think>''), reasoning_suffix = Some (js ''</think>''),
               reasoning_separator = Some (js ''|''), reasoning_max_additions = 2\<rparr>
      [] (js ''r'') True \<lparr>counter = 2\<rparr> = (js ''<think>r'', \<lparr>counter = 3\<rparr>) \<and>
   addToMessage id \<lparr>trim_spaces = False, reasoning_add_to_prompts = True,
               reasoning_prefix = Some (js ''<think>''), reasoning_suffix = Some (js ''</think>''),
               reasoning_separator = Some (js ''|''), reasoning_max_additions = 1\<rparr>
      (js ''a'') (js ''r'') True \<lparr>counter = 0\<rparr> = (js ''<think>r</think>|a'', \<lparr>counter = 1\<rparr>) \<and>
   addToMessage id \<lparr>trim_spaces = False, reasoning_add_to_prompts = True,
               reasoning_prefix = Some (js ''<think>''), reasoning_suffix = Some (js ''</think>''),
               reasoning_separator = Some (js ''|''), reasoning_max_additions = 1\<rparr>
      (js ''b'') (js ''s'') False \<lparr>counter = 1\<rparr> = (js ''b'', \<lparr>counter = 1\<rparr>)"
  using addToMessage_isPrefix_ignores_limit
    [of "js ''r''" id "\<lparr>trim_spaces = False, reasoning_add_to_prompts = False,
               reasoning_prefix = Some (js ''<think>''), reasoning_suffix = Some (js ''</think>''),
               reasoning_separator = Some (js ''|''), reasoning_max_additions = 2\<rparr>"
        "[]" "\<lparr>counter = 2\<rparr>"]
    addToMessage_isPrefix_ignores_limit
    [of "js ''r''" id "\<lparr>trim_spaces = False, reasoning_add_to_prompts = True,
               reasoning_prefix = Some (js ''<think>''), reasoning_suffix = Some (js ''</think>''),
               reasoning_separator = Some (js ''|''), reasoning_max_additions = 1\<rparr>"
        "js ''a''" "\<lparr>counter = 0\<rparr>" "js ''b''" "js ''s''"]
  by (simp add: js_simps REASONING_PLACEHOLDER_def orEmpty_def)

section \<open>Properties of the tracker\<close>

lemma updateTime_keeps:
  "handler (snd (updateTime i w)) = handler w"
  "emitted (snd (updateTime i w)) = emitted w"
  by (simp_all add: updateTime_def Let_def split: option.splits)

lemma updateReasoning_keeps:
  "isHidden (updateReasoning g a h) = isHidden h"
  "startTime (updateReasoning g a h) = startTime h"
  "endTime (updateReasoning g a h) = endTime h"
  "initialTime (updateReasoning g a h) = initialTime h"
  by (simp_all add: updateReasoning_def)

lemma process_skip:
  "reasoning (handler w) = [] \<Longrightarrow> \<not> isHidden (handler w) \<Longrightarrow> process g pu i mc t w = (None, w)"
  by (simp add: process_def)

lemma process_out_of_range:
  "reasoning (handler w) \<noteq> [] \<or> isHidden (handler w) \<Longrightarrow> \<not> i < length (chat w) \<Longrightarrow>
   process g pu i mc t w = (Some TypeError, w\<lparr>handler := updateReasoning g None (handler w)\<rparr>)"
  by (auto simp add: process_def Let_def)

lemma process_in_range_eq:
  assumes "reasoning (handler w) \<noteq> [] \<or> isHidden (handler w)" and "i < length (chat w)"
  shows "process g pu i mc t w = 
     (let h1 = updateReasoning g None (handler w);
              m = chat w ! i;
              ex = (case msg_extra m of
                      None \<Rightarrow> \<lparr>extra_reasoning = None, extra_reasoning_duration = None\<rparr>
                    | Some e \<Rightarrow> e);
              final = finalReasoning pu h1;
              reasoningChanged = (extra_reasoning ex \<noteq> Some final);
              chat1 = (chat w)[i := m\<lparr>msg_extra := Some (ex\<lparr>extra_reasoning := Some final\<rparr>)\<rparr>];
              h2 = (if (isHidden h1 \<or> reasoningChanged) \<and> startTime h1 = None
                    then h1\<lparr>startTime := Some (initialTime h1)\<rparr> else h1);
              finished = ((isHidden h2 \<or> \<not> reasoningChanged) \<and> mc \<and>
                          startTime h2 \<noteq> None \<and> endTime h2 = None);
              h3 = (if finished then h2\<lparr>endTime := Some t\<rparr> else h2);
              emitted1 = (if finished then emitted w @ [STREAM_REASONING_DONE final getDuration]
                          else emitted w)
          in updateTime i \<lparr>handler = h3, chat = chat1, emitted = emitted1\<rparr>)"
  using assms unfolding process_def
  by (simp only: Let_def if_False if_True not_not simp_thms split: if_splits) auto

lemma process_in_range:
  assumes "reasoning (handler w) \<noteq> [] \<or> isHidden (handler w)" and "i < length (chat w)"
  shows "startTime (handler (snd (process g pu i mc t w))) =
          (if (isHidden (handler w) \<or> reasoningChangedThisCycle g pu i w) \<and> startTime (handler w) = None
           then Some (initialTime (handler w)) else startTime (handler w))"
    and "endTime (handler (snd (process g pu i mc t w))) =
          (if (isHidden (handler w) \<or> \<not> reasoningChangedThisCycle g pu i w) \<and> mc \<and>
              (startTime (handler w) \<noteq> None \<or> isHidden (handler w)) \<and>
              endTime (handler w) = None
           then Some t else endTime (handler w))"
    and "emitted (snd (process g pu i mc t w)) =
          (if (isHidden (handler w) \<or> \<not> reasoningChangedThisCycle g pu i w) \<and> mc \<and>
              (startTime (handler w) \<noteq> None \<or> isHidden (handler w)) \<and>
              endTime (handler w) = None
           then emitted w @ [STREAM_REASONING_DONE
                  (finalReasoning pu (updateReasoning g None (handler w))) getDuration]
           else emitted w)"
    and "isHidden (handler (snd (process g pu i mc t w))) = isHidden (handler w)"
    and "initialTime (handler (snd (process g pu i mc t w))) = initialTime (handler w)"
    and "fst (process g pu i mc t w) = None"
proof -
  note eq = process_in_range_eq [OF assms]
  show "startTime (handler (snd (process g pu i mc t w))) =
          (if (isHidden (handler w) \<or> reasoningChangedThisCycle g pu i w) \<and> startTime (handler w) = None
           then Some (initialTime (handler w)) else startTime (handler w))"
    unfolding eq reasoningChangedThisCycle_def
    by (cases "msg_extra (chat w ! i)")
       (simp_all add: Let_def updateTime_keeps storedReasoning_def updateReasoning_keeps)
  show "endTime (handler (snd (process g pu i mc t w))) =
          (if (isHidden (handler w) \<or> \<not> reasoningChangedThisCycle g pu i w) \<and> mc \<and>
              (startTime (handler w) \<noteq> None \<or> isHidden (handler w)) \<and>
              endTime (handler w) = None
           then Some t else endTime (handler w))"
    unfolding eq reasoningChangedThisCycle_def
    by (cases "msg_extra (chat w ! i)")
       (auto simp add: Let_def updateTime_keeps storedReasoning_def updateReasoning_keeps)
  show "emitted (snd (process g pu i mc t w)) =
          (if (isHidden (handler w) \<or> \<not> reasoningChangedThisCycle g pu i w) \<and> mc \<and>
              (startTime (handler w) \<noteq> None \<or> isHidden (handler w)) \<and>
              endTime (handler w) = None
           then emitted w @ [STREAM_REASONING_DONE
                  (finalReasoning pu (updateReasoning g None (handler w))) getDuration]
           else emitted w)"
    unfolding eq reasoningChangedThisCycle_def
    by (cases "msg_extra (chat w ! i)")
       (auto simp add: Let_def updateTime_keeps storedReasoning_def updateReasoning_keeps)
  show "isHidden (handler (snd (process g pu i mc t w))) = isHidden (handler w)"
    unfolding eq by (simp add: Let_def updateTime_keeps updateReasoning_keeps)
  show "initialTime (handler (snd (process g pu i mc t w))) = initialTime (handler w)"
    unfolding eq by (simp add: Let_def updateTime_keeps updateReasoning_keeps)
  show "fst (process g pu i mc t w) = None"
    unfolding eq using assms(2) by (simp add: Let_def updateTime_def)
qed

lemma process_times:
  "startTime (handler (snd (process g pu i mc t w))) =
     (if (reasoning (handler w) \<noteq> [] \<or> isHidden (handler w)) \<and> i < length (chat w) \<and>
         (isHidden (handler w) \<or> reasoningChangedThisCycle g pu i w) \<and> startTime (handler w) = None
      then Some (initialTime (handler w)) else startTime (handler w))"
  "endTime (handler (snd (process g pu i mc t w))) =
     (if (reasoning (handler w) \<noteq> [] \<or> isHidden (handler w)) \<and> i < length (chat w) \<and>
         (isHidden (handler w) \<or> \<not> reasoningChangedThisCycle g pu i w) \<and> mc \<and>
         (startTime (handler w) \<noteq> None \<or> isHidden (handler w)) \<and> endTime (handler w) = None
      then Some t else endTime (handler w))"
  "emitted (snd (process g pu i mc t w)) =
     (if (reasoning (handler w) \<noteq> [] \<or> isHidden (handler w)) \<and> i < length (chat w) \<and>
         (isHidden (handler w) \<or> \<not> reasoningChangedThisCycle g pu i w) \<and> mc \<and>
         (startTime (handler w) \<noteq> None \<or> isHidden (handler w)) \<and> endTime (handler w) = None
      then emitted w @ [STREAM_REASONING_DONE
             (finalReasoning pu (updateReasoning g None (handler w))) getDuration]
      else emitted w)"
proof -
  consider (skip) "reasoning (handler w) = []" "\<not> isHidden (handler w)"
    | (range) "reasoning (handler w) \<noteq> [] \<or> isHidden (handler w)" "\<not> i < length (chat w)"
    | (main) "reasoning (handler w) \<noteq> [] \<or> isHidden (handler w)" "i < length (chat w)"
    by blast
  then have "startTime (handler (snd (process g pu i mc t w))) =
     (if (reasoning (handler w) \<noteq> [] \<or> isHidden (handler w)) \<and> i < length (chat w) \<and>
         (isHidden (handler w) \<or> reasoningChangedThisCycle g pu i w) \<and> startTime (handler w) = None
      then Some (initialTime (handler w)) else startTime (handler w)) \<and>
    endTime (handler (snd (process g pu i mc t w))) =
     (if (reasoning (handler w) \<noteq> [] \<or> isHidden (handler w)) \<and> i < length (chat w) \<and>
         (isHidden (handler w) \<or> \<not> reasoningChangedThisCycle g pu i w) \<and> mc \<and>
         (startTime (handler w) \<noteq> None \<or> isHidden (handler w)) \<and> endTime (handler w) = None
      then Some t else endTime (handler w)) \<and>
    emitted (snd (process g pu i mc t w)) =
     (if (reasoning (handler w) \<noteq> [] \<or> isHidden (handler w)) \<and> i < length (chat w) \<and>
         (isHidden (handler w) \<or> \<not> reasoningChangedThisCycle g pu i w) \<and> mc \<and>
         (startTime (handler w) \<noteq> None \<or> isHidden (handler w)) \<and> endTime (handler w) = None
      then emitted w @ [STREAM_REASONING_DONE
             (finalReasoning pu (updateReasoning g None (handler w))) getDuration]
      else emitted w)"
  proof cases
    case skip
    then show ?thesis by (simp add: process_skip)
  next
    case range
    then show ?thesis by (simp add: process_out_of_range updateReasoning_keeps)
  next
    case main
    then show ?thesis by (simp add: process_in_range)
  qed
  then show
  "startTime (handler (snd (process g pu i mc t w))) =
     (if (reasoning (handler w) \<noteq> [] \<or> isHidden (handler w)) \<and> i < length (chat w) \<and>
         (isHidden (handler w) \<or> reasoningChangedThisCycle g pu i w) \<and> startTime (handler w) = None
      then Some (initialTime (handler w)) else startTime (handler w))"
  "endTime (handler (snd (process g pu i mc t w))) =
     (if (reasoning (handler w) \<noteq> [] \<or> isHidden (handler w)) \<and> i < length (chat w) \<and>
         (isHidden (handler w) \<or> \<not> reasoningChangedThisCycle g pu i w) \<and> mc \<and>
         (startTime (handler w) \<noteq> None \<or> isHidden (handler w)) \<and> endTime (handler w) = None
      then Some t else endTime (handler w))"
  "emitted (snd (process g pu i mc t w)) =
     (if (reasoning (handler w) \<noteq> [] \<or> isHidden (handler w)) \<and> i < length (chat w) \<and>
         (isHidden (handler w) \<or> \<not> reasoningChangedThisCycle g pu i w) \<and> mc \<and>
         (startTime (handler w) \<noteq> None \<or> isHidden (handler w)) \<and> endTime (handler w) = None
      then emitted w @ [STREAM_REASONING_DONE
             (finalReasoning pu (updateReasoning g None (handler w))) getDuration]
      else emitted w)"
    by blast+
qed

lemma finish_times:
  "startTime (handler (snd (finish pu i now w))) = startTime (handler w)"
  "endTime (handler (snd (finish pu i now w))) =
     (if startTime (handler w) \<noteq> None \<and> endTime (handler w) = None then Some now
      else endTime (handler w))"
  "emitted (snd (finish pu i now w)) =
     (if startTime (handler w) \<noteq> None \<and> endTime (handler w) = None
      then emitted w @ [STREAM_REASONING_DONE (finalReasoning pu (handler w)) getDuration]
      else emitted w)"
  by (auto simp add: finish_def Let_def updateTime_keeps finalReasoning_def)

lemma step_finalized_or_silent:
  "finalized_or_silent w \<Longrightarrow> finalized_or_silent (step c w)"
  by (cases c) (auto simp add: finalized_or_silent_def process_times finish_times
      updateReasoning_keeps split: if_splits)

lemma run_finalized_or_silent:
  "finalized_or_silent w \<Longrightarrow> finalized_or_silent (run cs w)"
  unfolding run_def
  by (induction cs arbitrary: w) (simp_all add: step_finalized_or_silent)

lemma session_start_finalized_or_silent:
  "finalized_or_silent (session_start hid ty t0 c0)"
  by (simp add: finalized_or_silent_def session_start_def new_ReasoningHandler_def)

lemma step_after_end:
  "endTime (handler w) \<noteq> None \<Longrightarrow> startTime (handler w) \<noteq> None \<Longrightarrow>
   startTime (handler (step c w)) = startTime (handler w) \<and>
   endTime (handler (step c w)) = endTime (handler w)"
  by (cases c) (auto simp add: process_times finish_times updateReasoning_keeps)

lemma run_after_end:
  "endTime (handler w) \<noteq> None \<Longrightarrow> startTime (handler w) \<noteq> None \<Longrightarrow>
   startTime (handler (run cs w)) = startTime (handler w) \<and>
   endTime (handler (run cs w)) = endTime (handler w)"
  unfolding run_def
proof (induction cs arbitrary: w)
  case Nil
  then show ?case by simp
next
  case (Cons c cs)
  from step_after_end [OF Cons.prems, of c]
  have s: "startTime (handler (step c w)) = startTime (handler w)"
    and e: "endTime (handler (step c w)) = endTime (handler w)" by simp_all
  with Cons.prems have "endTime (handler (step c w)) \<noteq> None" "startTime (handler (step c w)) \<noteq> None"
    by simp_all
  from Cons.IH [OF this] s e show ?case by simp
qed

lemma process_initialTime:
  "initialTime (handler (snd (process g pu i mc t w))) = initialTime (handler w)"
proof -
  consider (skip) "reasoning (handler w) = []" "\<not> isHidden (handler w)"
    | (range) "reasoning (handler w) \<noteq> [] \<or> isHidden (handler w)" "\<not> i < length (chat w)"
    | (main) "reasoning (handler w) \<noteq> [] \<or> isHidden (handler w)" "i < length (chat w)"
    by blast
  then show ?thesis
  proof cases
    case skip
    then show ?thesis by (simp add: process_skip)
  next
    case range
    then show ?thesis by (simp add: process_out_of_range updateReasoning_keeps)
  next
    case main
    then show ?thesis by (simp add: process_in_range)
  qed
qed

lemma finish_initialTime:
  "initialTime (handler (snd (finish pu i now w))) = initialTime (handler w)"
  by (simp add: finish_def Let_def updateTime_keeps)

lemma step_initialTime:
  "initialTime (handler (step c w)) = initialTime (handler w)"
  by (cases c) (simp_all add: process_initialTime finish_initialTime updateReasoning_keeps)

lemma run_initialTime:
  "initialTime (handler (run cs w)) = initialTime (handler w)"
  unfolding run_def
  by (induction cs arbitrary: w) (simp_all add: step_initialTime)

lemma session_initialTime:
  "initialTime (handler (run cs (session_start hid ty timeStarted chat0))) = timeStarted"
  by (simp add: run_initialTime session_start_def new_ReasoningHandler_def)

lemmas demo_defs = demo_settings_def demo_start_def demo_thinking_def session_start_def
  new_ReasoningHandler_def run_def process_def finish_def updateTime_def updateReasoning_def
  finalReasoning_def getDuration_def Let_def js_simps reasoningChangedThisCycle_def storedReasoning_def

text \<open>
  C1 as stated fails. In the session below the reasoning text \<^verbatim>\<open>abc\<close> has been
  stored by a first cycle, which set \<^verbatim>\<open>startTime\<close>. A second cycle in which neither
  the message body nor the reasoning text changed leaves \<^verbatim>\<open>endTime\<close> unset and emits
  nothing: the condition of the code asks for \<^verbatim>\<open>mesChanged\<close>, not for its negation.
\<close>

theorem process_unchanged_body_does_not_finish:
  "startTime (handler (run demo_thinking demo_start)) = Some (Date 100) \<and>
   endTime (handler (run demo_thinking demo_start)) = None \<and>
   \<not> reasoningChangedThisCycle id (demo_settings False) 0 (run demo_thinking demo_start) \<and>
   endTime (handler (snd (process id (demo_settings False) 0 False (Date 250)
      (run demo_thinking demo_start)))) = None \<and>
   emitted (snd (process id (demo_settings False) 0 False (Date 250)
      (run demo_thinking demo_start))) = []"
  by (simp add: demo_defs)

text \<open>
  C1, amended. In a cycle that is not skipped (the reasoning text is non-empty or
  the model hides its reasoning) for a message that exists, if the message body
  changed in this cycle, \<^verbatim>\<open>startTime\<close> is set, \<^verbatim>\<open>endTime\<close> is not, and the model hides
  its reasoning or the stored reasoning text does not change in this cycle, then
  \<^verbatim>\<open>process\<close> sets \<^verbatim>\<open>endTime\<close> to the current timestamp of the cycle and emits the
  notification with the final reasoning text and the duration resolver, which
  from then on yields the current timestamp minus \<^verbatim>\<open>startTime\<close>.
\<close>

theorem process_finishes_on_changed_body:
  "(reasoning (handler w) \<noteq> [] \<or> isHidden (handler w)) \<and> i < length (chat w) \<and>
   mesChanged \<and> startTime (handler w) \<noteq> None \<and> endTime (handler w) = None \<and>
   (isHidden (handler w) \<or> \<not> reasoningChangedThisCycle g pu i w) \<longrightarrow>
     endTime (handler (snd (process g pu i mesChanged currentTime w))) = Some currentTime \<and>
     startTime (handler (snd (process g pu i mesChanged currentTime w))) = startTime (handler w) \<and>
     emitted (snd (process g pu i mesChanged currentTime w)) =
       emitted w @ [STREAM_REASONING_DONE
          (finalReasoning pu (updateReasoning g None (handler w))) getDuration] \<and>
     getDuration (handler (snd (process g pu i mesChanged currentTime w))) =
       Some (getTime currentTime - getTime (the (startTime (handler w))))"
  by (auto simp add: process_times getDuration_def)

theorem process_finishes_on_changed_body_witness:
  "endTime (handler (snd (process id (demo_settings False) 0 True (Date 250)
      (run demo_thinking demo_start)))) = Some (Date 250) \<and>
   emitted (snd (process id (demo_settings False) 0 True (Date 250)
      (run demo_thinking demo_start))) = [STREAM_REASONING_DONE (js ''abc'') getDuration] \<and>
   getDuration (handler (snd (process id (demo_settings False) 0 True (Date 250)
      (run demo_thinking demo_start)))) = Some 150"
  using process_finishes_on_changed_body [of "run demo_thinking demo_start" 0 True id "demo_settings False" "Date 250"]
  by (simp add: demo_defs)

text \<open>
  C2. Take any session: a fresh handler, any sequence of calls, then \<^verbatim>\<open>finish\<close>.
  The notification has been emitted once if \<^verbatim>\<open>startTime\<close> is set at the end and not
  at all otherwise. If \<^verbatim>\<open>startTime\<close> is set and no cycle has set \<^verbatim>\<open>endTime\<close>, nothing
  was emitted before, and \<^verbatim>\<open>finish\<close> sets \<^verbatim>\<open>endTime\<close> to the current time and emits
  the notification; if a cycle has emitted it, \<^verbatim>\<open>finish\<close> emits nothing and leaves
  \<^verbatim>\<open>endTime\<close> alone.
\<close>

theorem reasoning_done_emitted_once:
  "(let w = run cs (session_start hid ty t0 chat0);
        w' = snd (finish pu i now w)
    in length (emitted w') = (if startTime (handler w') = None then 0 else 1) \<and>
       (startTime (handler w) \<noteq> None \<and> endTime (handler w) = None \<longrightarrow>
          emitted w = [] \<and> endTime (handler w') = Some now \<and>
          emitted w' = [STREAM_REASONING_DONE (finalReasoning pu (handler w)) getDuration]) \<and>
       (emitted w \<noteq> [] \<longrightarrow> emitted w' = emitted w \<and> endTime (handler w') = endTime (handler w)) \<and>
       (startTime (handler w') = None \<longrightarrow> emitted w' = []))"
proof -
  define w where "w = run cs (session_start hid ty t0 chat0)"
  have inv: "finalized_or_silent w"
    unfolding w_def by (rule run_finalized_or_silent) (rule session_start_finalized_or_silent)
  have "length (emitted (snd (finish pu i now w))) =
          (if startTime (handler (snd (finish pu i now w))) = None then 0 else 1)"
    using inv by (auto simp add: finalized_or_silent_def finish_times split: if_splits)
  moreover have "startTime (handler w) \<noteq> None \<and> endTime (handler w) = None \<longrightarrow>
          emitted w = [] \<and> endTime (handler (snd (finish pu i now w))) = Some now \<and>
          emitted (snd (finish pu i now w)) =
            [STREAM_REASONING_DONE (finalReasoning pu (handler w)) getDuration]"
    using inv by (auto simp add: finalized_or_silent_def finish_times split: if_splits)
  moreover have "emitted w \<noteq> [] \<longrightarrow> emitted (snd (finish pu i now w)) = emitted w \<and>
          endTime (handler (snd (finish pu i now w))) = endTime (handler w)"
    using inv by (auto simp add: finalized_or_silent_def finish_times split: if_splits)
  moreover have "startTime (handler (snd (finish pu i now w))) = None \<longrightarrow>
          emitted (snd (finish pu i now w)) = []"
    using inv by (auto simp add: finalized_or_silent_def finish_times split: if_splits)
  ultimately show ?thesis
    unfolding w_def Let_def by blast
qed

theorem reasoning_done_emitted_once_witness:
  "emitted (run demo_thinking demo_start) = [] \<and>
   emitted (snd (finish (demo_settings False) 0 (Date 300) (run demo_thinking demo_start))) =
     [STREAM_REASONING_DONE (js ''abc'') getDuration] \<and>
   endTime (handler (snd (finish (demo_settings False) 0 (Date 300)
     (run demo_thinking demo_start)))) = Some (Date 300) \<and>
   emitted (run (demo_thinking @ [Process id (demo_settings False) 0 True (Date 250)]) demo_start) =
     [STREAM_REASONING_DONE (js ''abc'') getDuration] \<and>
   emitted (snd (finish (demo_settings False) 0 (Date 300)
     (run (demo_thinking @ [Process id (demo_settings False) 0 True (Date 250)]) demo_start))) =
     [STREAM_REASONING_DONE (js ''abc'') getDuration] \<and>
   endTime (handler (snd (finish (demo_settings False) 0 (Date 300)
     (run (demo_thinking @ [Process id (demo_settings False) 0 True (Date 250)]) demo_start)))) =
     Some (Date 250) \<and>
   emitted (snd (finish (demo_settings False) 0 (Date 300)
     (run [Process id (demo_settings False) 0 True (Date 150)] demo_start))) = []"
  using
    reasoning_done_emitted_once [of "demo_thinking" False "js ''normal''" "Date 100" "[\<lparr>msg_extra = None\<rparr>]"
      "demo_settings False" 0 "Date 300"]
    reasoning_done_emitted_once [of "demo_thinking @ [Process id (demo_settings False) 0 True (Date 250)]" False
      "js ''normal''" "Date 100" "[\<lparr>msg_extra = None\<rparr>]" "demo_settings False" 0 "Date 300"]
    reasoning_done_emitted_once [of "[Process id (demo_settings False) 0 True (Date 150)]" False
      "js ''normal''" "Date 100" "[\<lparr>msg_extra = None\<rparr>]" "demo_settings False" 0 "Date 300"]
  by (simp add: demo_defs)

text \<open>
  C3 as stated fails. In the session below the accumulated reasoning text is
  \<^verbatim>\<open> abc \<close>, which is non-empty and differs from the stored \<^verbatim>\<open>abc\<close>, and \<^verbatim>\<open>startTime\<close> is
  not set. With \<^verbatim>\<open>trim_spaces\<close> on the cycle compares the trimmed text, finds no
  change and leaves \<^verbatim>\<open>startTime\<close> unset, whether or not the message body changed.
\<close>

theorem process_trimmed_text_unchanged_no_startTime:
  "reasoning (handler demo_continue) = js '' abc '' \<and>
   reasoning (handler demo_continue) \<noteq> [] \<and>
   storedReasoning 0 demo_continue = Some (js ''abc'') \<and>
   storedReasoning 0 demo_continue \<noteq> Some (reasoning (handler demo_continue)) \<and>
   startTime (handler demo_continue) = None \<and>
   initialTime (handler demo_continue) = Date 100 \<and>
   startTime (handler (snd (process id (demo_settings True) 0 False (Date 150) demo_continue))) =
     None \<and>
   startTime (handler (snd (process id (demo_settings True) 0 True (Date 150) demo_continue))) =
     None"
  by (simp add: demo_continue_def demo_defs trim_def isWhiteSpace_def)

text \<open>
  C3, amended. In every cycle of a session on an existing message in which the
  accumulated reasoning text is non-empty, the text the cycle stores (the
  accumulated text after regex processing, trimmed when \<^verbatim>\<open>trim_spaces\<close> is on) differs
  from the text stored on the message before, and \<^verbatim>\<open>startTime\<close> is not set,
  \<^verbatim>\<open>process\<close> sets \<^verbatim>\<open>startTime\<close> to the \<^verbatim>\<open>timeStarted\<close> given to the constructor,
  whatever the current timestamp of the cycle is.
\<close>

theorem process_startTime_is_initialTime:
  "(let w = run cs (session_start hid ty timeStarted chat0)
    in reasoning (handler w) \<noteq> [] \<and> i < length (chat w) \<and>
       reasoningChangedThisCycle g pu i w \<and> startTime (handler w) = None \<longrightarrow>
         startTime (handler (snd (process g pu i mesChanged currentTime w))) = Some timeStarted)"
  by (simp add: Let_def process_times session_initialTime)

theorem process_startTime_is_initialTime_witness:
  "startTime (handler (snd (process id (demo_settings False) 0 False (Date 150)
      (run [UpdateReasoning id (Some (js ''abc''))]
         (session_start False (js ''normal'') (Date 100) [\<lparr>msg_extra = None\<rparr>])))))
     = Some (Date 100) \<and>
   startTime (handler (snd (process id (demo_settings True) 0 True (Date 150)
      (run [UpdateReasoning id (Some (js '' abcd ''))]
         (session_start False (js ''continue'') (Date 100)
            [\<lparr>msg_extra = Some \<lparr>extra_reasoning = Some (js ''abc''),
                                  extra_reasoning_duration = None\<rparr>\<rparr>])))))
     = Some (Date 100)"
  using
    process_startTime_is_initialTime [of "[UpdateReasoning id (Some (js ''abc''))]" False
      "js ''normal''" "Date 100" "[\<lparr>msg_extra = None\<rparr>]" 0 id "demo_settings False"
      False "Date 150"]
    process_startTime_is_initialTime [of "[UpdateReasoning id (Some (js '' abcd ''))]" False
      "js ''continue''" "Date 100"
      "[\<lparr>msg_extra = Some \<lparr>extra_reasoning = Some (js ''abc''),
                               extra_reasoning_duration = None\<rparr>\<rparr>]" 0 id "demo_settings True"
      True "Date 150"]
  by (simp add: demo_settings_def session_start_def new_ReasoningHandler_def run_def
      updateReasoning_def finalReasoning_def js_simps reasoningChangedThisCycle_def
      storedReasoning_def trim_def isWhiteSpace_def)

text \<open>
  C4. Once \<^verbatim>\<open>endTime\<close> is set in a session, \<^verbatim>\<open>startTime\<close> is set too, and no further
  sequence of calls changes either of them, so \<^verbatim>\<open>getDuration\<close> keeps its value,
  which is \<^verbatim>\<open>endTime\<close> minus \<^verbatim>\<open>startTime\<close> in milliseconds. For any handler with one
  of the two unset, \<^verbatim>\<open>getDuration\<close> is \<^verbatim>\<open>null\<close>.
\<close>

theorem finalized_times_stable:
  "(let w = run cs0 (session_start hid ty t0 chat0); w' = run cs w
    in endTime (handler w) \<noteq> None \<longrightarrow>
         startTime (handler w) \<noteq> None \<and>
         startTime (handler w') = startTime (handler w) \<and>
         endTime (handler w') = endTime (handler w) \<and>
         getDuration (handler w') = getDuration (handler w) \<and>
         getDuration (handler w) =
           Some (getTime (the (endTime (handler w))) - getTime (the (startTime (handler w))))) \<and>
   (startTime h = None \<or> endTime h = None \<longrightarrow> getDuration h = None)"
proof -
  define w where "w = run cs0 (session_start hid ty t0 chat0)"
  have inv: "finalized_or_silent w"
    unfolding w_def by (rule run_finalized_or_silent) (rule session_start_finalized_or_silent)
  have "endTime (handler w) \<noteq> None \<longrightarrow>
         startTime (handler w) \<noteq> None \<and>
         startTime (handler (run cs w)) = startTime (handler w) \<and>
         endTime (handler (run cs w)) = endTime (handler w) \<and>
         getDuration (handler (run cs w)) = getDuration (handler w) \<and>
         getDuration (handler w) =
           Some (getTime (the (endTime (handler w))) - getTime (the (startTime (handler w))))"
  proof
    assume e: "endTime (handler w) \<noteq> None"
    with inv have s: "startTime (handler w) \<noteq> None"
      by (simp add: finalized_or_silent_def)
    from run_after_end [OF e s, of cs]
    have k: "startTime (handler (run cs w)) = startTime (handler w)"
      "endTime (handler (run cs w)) = endTime (handler w)" by simp_all
    then have "getDuration (handler (run cs w)) = getDuration (handler w)"
      by (simp add: getDuration_def split: option.splits)
    moreover from e s have "getDuration (handler w) =
           Some (getTime (the (endTime (handler w))) - getTime (the (startTime (handler w))))"
      by (auto simp add: getDuration_def)
    ultimately show "startTime (handler w) \<noteq> None \<and>
         startTime (handler (run cs w)) = startTime (handler w) \<and>
         endTime (handler (run cs w)) = endTime (handler w) \<and>
         getDuration (handler (run cs w)) = getDuration (handler w) \<and>
         getDuration (handler w) =
           Some (getTime (the (endTime (handler w))) - getTime (the (startTime (handler w))))"
      using s k by simp
  qed
  moreover have "startTime h = None \<or> endTime h = None \<longrightarrow> getDuration h = None"
    by (auto simp add: getDuration_def split: option.splits)
  ultimately show ?thesis
    unfolding w_def Let_def by blast
qed

theorem finalized_times_stable_witness:
  "endTime (handler (run (demo_thinking @ [Process id (demo_settings False) 0 True (Date 250)])
      demo_start)) = Some (Date 250) \<and>
   startTime (handler (run [UpdateReasoning id (Some (js ''xyz'')),
        Process id (demo_settings True) 0 True (Date 400), Finish (demo_settings True) 0 (Date 500)]
      (run (demo_thinking @ [Process id (demo_settings False) 0 True (Date 250)]) demo_start))) =
     Some (Date 100) \<and>
   endTime (handler (run [UpdateReasoning id (Some (js ''xyz'')),
        Process id (demo_settings True) 0 True (Date 400), Finish (demo_settings True) 0 (Date 500)]
      (run (demo_thinking @ [Process id (demo_settings False) 0 True (Date 250)]) demo_start))) =
     Some (Date 250) \<and>
   getDuration (handler (run [UpdateReasoning id (Some (js ''xyz'')),
        Process id (demo_settings True) 0 True (Date 400), Finish (demo_settings True) 0 (Date 500)]
      (run (demo_thinking @ [Process id (demo_settings False) 0 True (Date 250)]) demo_start))) =
     Some 150 \<and>
   getDuration (handler demo_start) = None"
  using
    finalized_times_stable [of "demo_thinking @ [Process id (demo_settings False) 0 True (Date 250)]" False
      "js ''normal''" "Date 100" "[\<lparr>msg_extra = None\<rparr>]"
      "[UpdateReasoning id (Some (js ''xyz'')),
        Process id (demo_settings True) 0 True (Date 400), Finish (demo_settings True) 0 (Date 500)]"
      "handler demo_start"]
  by (simp add: demo_defs)

section \<open>Properties of the parser\<close>

lemma andThen_simps:
  "andThen a (Inl e) = Inl e"
  "andThen a (Inr as) = Inr (a # as)"
  by (simp_all add: andThen_def)

lemma RegExp_escaped_char:
  "RegExp ((if needsEscape c then [0x5C, c] else [c]) @ rest) =
     andThen (PatternCharacter c) (RegExp rest)"
  by (auto simp add: needsEscape_def isSyntaxCharacter_def js_simps)

lemma RegExp_escapeRegex:
  "RegExp (escapeRegex p @ rest) =
     (case RegExp rest of Inl e \<Rightarrow> Inl e | Inr as \<Rightarrow> Inr (map PatternCharacter p @ as))"
proof (induction p)
  case Nil
  show ?case by (simp split: sum.splits)
next
  case (Cons c p)
  have "RegExp (escapeRegex (c # p) @ rest) =
          RegExp ((if needsEscape c then [0x5C, c] else [c]) @ (escapeRegex p @ rest))"
    by simp
  also have "\<dots> = andThen (PatternCharacter c) (RegExp (escapeRegex p @ rest))"
    by (rule RegExp_escaped_char)
  finally show ?case
    by (simp add: Cons.IH andThen_def split: sum.splits)
qed

lemma RegExp_group:
  "RegExp (js ''(.*?)'' @ rest) = andThen LazyDotAllGroup (RegExp rest)"
  by (simp add: js_simps)

lemma RegExp_source:
  "RegExp (escapeRegex p @ js ''(.*?)'' @ escapeRegex s) =
     Inr (map PatternCharacter p @ LazyDotAllGroup # map PatternCharacter s)"
proof -
  have "RegExp (escapeRegex s) = Inr (map PatternCharacter s)"
    using RegExp_escapeRegex [of s "[]"] by simp
  then have "RegExp (js ''(.*?)'' @ escapeRegex s) = Inr (LazyDotAllGroup # map PatternCharacter s)"
    by (simp only: RegExp_group andThen_simps)
  then show ?thesis
    by (simp add: RegExp_escapeRegex)
qed

lemma matchAt_literal:
  "matchAt (map PatternCharacter p @ as) str =
     (if prefix p str then matchAt as (drop (length p) str) else None)"
proof (induction p arbitrary: str)
  case Nil
  show ?case by simp
next
  case (Cons c p)
  show ?case by (cases str) (simp_all add: Cons.IH)
qed

lemma matchAt_literal_only:
  "matchAt (map PatternCharacter s) str =
     (if prefix s str then Some ([], drop (length s) str) else None)"
  using matchAt_literal [of s "[]" str] by simp

lemma matchAt_group_Nil:
  "matchAt (LazyDotAllGroup # as) [] =
     (case matchAt as [] of Some (captures, rest) \<Rightarrow> Some ([] # captures, rest) | None \<Rightarrow> None)"
  by (simp split: option.splits)

lemma matchAt_group_Cons:
  "matchAt (LazyDotAllGroup # as) (x # xs) =
     (case matchAt as (x # xs) of
        Some (captures, rest) \<Rightarrow> Some ([] # captures, rest)
      | None \<Rightarrow>
          (case matchAt (LazyDotAllGroup # as) xs of
             None \<Rightarrow> None
           | Some (captures, rest) \<Rightarrow> Some ((x # hd captures) # tl captures, rest)))"
  by (subst matchAt.simps(4)) (simp only: list.case cong: option.case_cong)

lemma matchAt_group_literal:
  "matchAt (LazyDotAllGroup # map PatternCharacter s) str =
     (case find_first s str of None \<Rightarrow> None | Some (r, b) \<Rightarrow> Some ([r], b))"
proof (induction str)
  case Nil
  show ?case by (simp only: matchAt_group_Nil matchAt_literal_only) simp
next
  case (Cons x xs)
  show ?case
    by (simp only: matchAt_group_Cons matchAt_literal_only Cons.IH)
       (simp split: option.splits)
qed

lemma find_first_Some:
  "find_first n h = Some (a, b) \<Longrightarrow> h = a @ n @ b \<and> (\<forall>k<length a. \<not> prefix n (drop k h))"
proof (induction h arbitrary: a b)
  case Nil
  then show ?case by (simp split: if_splits)
next
  case (Cons x xs)
  show ?case
  proof (cases "prefix n (x # xs)")
    case True
    with Cons.prems have "a = []" "b = drop (length n) (x # xs)" by simp_all
    with True show ?thesis by (auto simp add: prefix_def)
  next
    case False
    with Cons.prems obtain a' where f: "find_first n xs = Some (a', b)" and a: "a = x # a'"
      by (auto split: option.splits)
    from Cons.IH [OF f] have xs: "xs = a' @ n @ b"
      and m: "\<forall>k<length a'. \<not> prefix n (drop k xs)" by blast+
    have "\<not> prefix n (drop k (x # xs))" if "k < length a" for k
    proof (cases k)
      case 0
      with False show ?thesis by simp
    next
      case (Suc j)
      with that a m show ?thesis by simp
    qed
    with xs a show ?thesis by simp
  qed
qed

lemma find_first_None:
  "find_first n h = None \<Longrightarrow> \<not> sublist n h"
proof (induction h)
  case Nil
  then show ?case by (simp split: if_splits)
next
  case (Cons x xs)
  then have np: "\<not> prefix n (x # xs)" and "find_first n xs = None"
    by (auto split: if_splits option.splits)
  with Cons.IH have "\<not> sublist n xs" by simp
  with np show ?case by (simp add: sublist_Cons_right)
qed

lemma find_first_sublist:
  "sublist n h \<Longrightarrow> \<exists>a b. find_first n h = Some (a, b)"
  using find_first_None [of n h] by (cases "find_first n h") auto

lemma find_first_first:
  "h = a @ n @ b \<Longrightarrow> \<forall>k<length a. \<not> prefix n (drop k h) \<Longrightarrow> find_first n h = Some (a, b)"
proof (induction a arbitrary: h)
  case Nil
  then have p: "prefix n h" and d: "drop (length n) h = b" by simp_all
  show ?case
  proof (cases h)
    case Nil
    with p d show ?thesis by simp
  next
    case (Cons x xs)
    with p d show ?thesis by simp
  qed
next
  case (Cons x a)
  from Cons.prems(2) have "\<not> prefix n (drop 0 h)" by blast
  with Cons.prems(1) have np: "\<not> prefix n (x # a @ n @ b)" by simp
  have "\<forall>k<length a. \<not> prefix n (drop k (a @ n @ b))"
  proof (intro allI impI)
    fix k assume "k < length a"
    then have "Suc k < length (x # a)" by simp
    with Cons.prems(2) have "\<not> prefix n (drop (Suc k) h)" by blast
    with Cons.prems(1) show "\<not> prefix n (drop k (a @ n @ b))" by simp
  qed
  with Cons.IH [of "a @ n @ b"] have "find_first n (a @ n @ b) = Some (a, b)" by simp
  with np Cons.prems(1) show ?case by simp
qed

lemma no_later_span:
  assumes "find_first s (drop (length p) (x # xs)) = None"
    and "find_first p xs = Some (a, rest)"
  shows "find_first s rest = None"
proof (cases "find_first s rest")
  case None
  then show ?thesis .
next
  case (Some rb)
  obtain r b where "rb = (r, b)" by (cases rb)
  with Some find_first_Some [of s rest r b] have "rest = r @ s @ b" by simp
  then have sub: "sublist s rest" by (auto simp add: sublist_def)
  define u where "u = x # a @ p"
  from find_first_Some [OF assms(2)] have "xs = a @ p @ rest" by simp
  then have "x # xs = u @ rest" by (simp add: u_def)
  moreover have "length p \<le> length u" by (simp add: u_def)
  ultimately have "drop (length p) (x # xs) = drop (length p) u @ rest" by simp
  with sub have "sublist s (drop (length p) (x # xs))"
    by (auto simp add: sublist_def) (metis append.assoc)
  with find_first_None [OF assms(1)] show ?thesis by simp
qed

lemma exec_Cons:
  "exec regex (x # xs) =
     (case matchAt regex (x # xs) of
        Some (captures, rest) \<Rightarrow> Some ([], captures, rest)
      | None \<Rightarrow>
          (case exec regex xs of
             None \<Rightarrow> None
           | Some (before, captures, rest) \<Rightarrow> Some (x # before, captures, rest)))"
  by simp

lemma exec_pattern:
  "exec (map PatternCharacter p @ LazyDotAllGroup # map PatternCharacter s) str =
     (case find_first p str of
        None \<Rightarrow> None
      | Some (a, rest) \<Rightarrow>
          (case find_first s rest of None \<Rightarrow> None | Some (r, b) \<Rightarrow> Some (a, [r], b)))"
proof (induction str)
  case Nil
  have "matchAt (map PatternCharacter p @ LazyDotAllGroup # map PatternCharacter s) [] =
      (if prefix p []
       then (case find_first s (drop (length p) []) of
               None \<Rightarrow> None | Some (r, b) \<Rightarrow> Some ([r], b))
       else None)"
    by (simp only: matchAt_literal matchAt_group_literal)
  then show ?case
    by (cases "p = []") (simp_all split: option.splits)
next
  case (Cons x xs)
  let ?pat = "map PatternCharacter p @ LazyDotAllGroup # map PatternCharacter s"
  have m: "matchAt ?pat (x # xs) =
      (if prefix p (x # xs)
       then (case find_first s (drop (length p) (x # xs)) of
               None \<Rightarrow> None | Some (r, b) \<Rightarrow> Some ([r], b))
       else None)"
    by (simp only: matchAt_literal matchAt_group_literal)
  show ?case
  proof (cases "prefix p (x # xs)")
    case False
    with m have "matchAt ?pat (x # xs) = None" by simp
    with False show ?thesis
      by (simp only: exec_Cons Cons.IH find_first.simps) (simp split: option.splits)
  next
    case True
    show ?thesis
    proof (cases "find_first s (drop (length p) (x # xs))")
      case (Some rb)
      with m True show ?thesis
        by (simp only: exec_Cons find_first.simps) (simp split: prod.splits)
    next
      case None
      with m True have mm: "matchAt ?pat (x # xs) = None" by simp
      have "exec ?pat xs = None"
      proof (cases "find_first p xs")
        case None
        then show ?thesis by (simp only: Cons.IH) simp
      next
        case (Some ar)
        obtain a rest where ar: "ar = (a, rest)" by (cases ar)
        from no_later_span [OF None] Some ar have "find_first s rest = None" by simp
        with Some ar show ?thesis by (simp only: Cons.IH) simp
      qed
      with mm True None show ?thesis
        by (simp only: exec_Cons find_first.simps) simp
    qed
  qed
qed

lemma falsy_iff: "falsy x \<longleftrightarrow> x = None \<or> x = Some []"
  by (simp add: falsy_def split: option.splits)

lemma parseReasoningFromString_eq:
  assumes "reasoning_prefix pu = Some p" "p \<noteq> []" "reasoning_suffix pu = Some s" "s \<noteq> []"
  shows "parseReasoningFromString escapeRegex pu str =
     (case find_first p str of
        None \<Rightarrow> Some \<lparr>parsed_reasoning = [], parsed_content = str\<rparr>
      | Some (a, rest) \<Rightarrow>
          (case find_first s rest of
             None \<Rightarrow> Some \<lparr>parsed_reasoning = [], parsed_content = str\<rparr>
           | Some (r, b) \<Rightarrow>
               Some (if trim_spaces pu
                     then \<lparr>parsed_reasoning = trim r, parsed_content = trim (a @ b)\<rparr>
                     else \<lparr>parsed_reasoning = r, parsed_content = a @ b\<rparr>)))"
  using assms
  by (simp add: parseReasoningFromString_def falsy_iff RegExp_source exec_pattern
      split: option.splits)

lemma span_occurs_find:
  assumes "span_occurs p s str"
  shows "\<exists>a r b. find_first p str = Some (a, r @ s @ b) \<and> find_first s (r @ s @ b) = Some (r, b)"
proof -
  from assms obtain a' r' b' where str: "str = a' @ p @ r' @ s @ b'"
    by (auto simp add: span_occurs_def)
  then have "sublist p str" by (auto simp add: sublist_def)
  then obtain a rest where f: "find_first p str = Some (a, rest)"
    using find_first_sublist by blast
  from find_first_Some [OF f] have str2: "str = a @ p @ rest"
    and m: "\<forall>k<length a. \<not> prefix p (drop k str)" by blast+
  from str have "prefix p (drop (length a') str)" by simp
  with m have le: "length a \<le> length a'" by (meson not_le_imp_less)
  define u where "u = a' @ p @ r'"
  from str have "str = u @ s @ b'" by (simp add: u_def)
  moreover from le have "length a + length p \<le> length u" by (simp add: u_def)
  moreover from str2 have "rest = drop (length a + length p) str" by simp
  ultimately have "rest = drop (length a + length p) u @ s @ b'" by simp
  then have "sublist s rest" unfolding sublist_def by blast
  then obtain r b where g: "find_first s rest = Some (r, b)"
    using find_first_sublist by blast
  from find_first_Some [OF g] have "rest = r @ s @ b" by simp
  with f g show ?thesis by blast
qed

lemma span_occurs_set:
  "span_occurs p s str \<Longrightarrow> set p \<subseteq> set str \<and> set s \<subseteq> set str"
  by (auto simp add: span_occurs_def)

lemma parse_no_span:
  assumes "reasoning_prefix pu = Some p" "p \<noteq> []" "reasoning_suffix pu = Some s" "s \<noteq> []"
    and "\<not> span_occurs p s str"
  shows "parseReasoningFromString escapeRegex pu str =
           Some \<lparr>parsed_reasoning = [], parsed_content = str\<rparr>"
proof -
  have "find_first s rest = None" if "find_first p str = Some (a, rest)" for a rest
  proof (cases "find_first s rest")
    case None
    then show ?thesis .
  next
    case (Some rb)
    obtain r b where "rb = (r, b)" by (cases rb)
    with Some find_first_Some [of s rest r b] have "rest = r @ s @ b" by simp
    moreover from find_first_Some [OF that] have "str = a @ p @ rest" by simp
    ultimately have "span_occurs p s str" by (auto simp add: span_occurs_def)
    with assms(5) show ?thesis by simp
  qed
  then show ?thesis
    by (simp add: parseReasoningFromString_eq [OF assms(1-4)] split: option.splits)
qed

lemma parse_None_iff:
  "parseReasoningFromString escapeRegex pu str = None \<longleftrightarrow>
     falsy (reasoning_prefix pu) \<or> falsy (reasoning_suffix pu)"
proof (cases "falsy (reasoning_prefix pu) \<or> falsy (reasoning_suffix pu)")
  case True
  then show ?thesis by (simp add: parseReasoningFromString_def)
next
  case False
  then obtain p s where "reasoning_prefix pu = Some p" "p \<noteq> []" "reasoning_suffix pu = Some s" "s \<noteq> []"
    by (auto simp add: falsy_iff)
  from parseReasoningFromString_eq [OF this, of str] False show ?thesis
    by (simp split: option.splits)
qed

lemmas parse_eval = parseReasoningFromString_def demo_settings_def falsy_def js_simps
  needsEscape_def isSyntaxCharacter_def andThen_def trim_def isWhiteSpace_def

text \<open>
  C5. With a configured (non-empty) prefix and suffix, if the prefix followed by
  the suffix does not occur in the input, the result has the input unchanged as
  content and the empty string as reasoning. The setting \<^verbatim>\<open>trim_spaces\<close> plays no
  role: nothing is trimmed.
\<close>

theorem parse_without_span_unchanged:
  "reasoning_prefix pu = Some p \<and> p \<noteq> [] \<and> reasoning_suffix pu = Some s \<and> s \<noteq> [] \<and>
   \<not> span_occurs p s str \<longrightarrow>
     parseReasoningFromString escapeRegex pu str =
       Some \<lparr>parsed_reasoning = [], parsed_content = str\<rparr>"
  using parse_no_span by blast

theorem parse_without_span_unchanged_witness:
  "parseReasoningFromString escapeRegex (demo_settings True) (js '' PRE abc rest '') =
     Some \<lparr>parsed_reasoning = [], parsed_content = js '' PRE abc rest ''\<rparr>"
proof -
  have "\<not> span_occurs (js ''PRE'') (js ''SUF'') (js '' PRE abc rest '')"
    using span_occurs_set [of "js ''PRE''" "js ''SUF''" "js '' PRE abc rest ''"]
    by (auto simp add: js_simps)
  with parse_without_span_unchanged [of "demo_settings True" "js ''PRE''" "js ''SUF''" "js '' PRE abc rest ''"]
  show ?thesis by (simp add: demo_settings_def js_simps)
qed

text \<open>
  C6. With a configured prefix and suffix, if the prefix followed by the suffix
  occurs in the input, then the input splits at the first occurrence of the
  prefix and, after it, at the first occurrence of the suffix; the reasoning is
  the text between the two, the content is the input without the span from
  prefix to suffix, and both are trimmed exactly when \<^verbatim>\<open>trim_spaces\<close> is on.
  Conversely, whenever the input is split in this way, the result is the one of
  that split. For the input \<^verbatim>\<open>PRE abc SUF rest\<close> the results are as the
  specification gives them.
\<close>

theorem parse_first_lazy_span:
  "(reasoning_prefix pu = Some p \<and> p \<noteq> [] \<and> reasoning_suffix pu = Some s \<and> s \<noteq> [] \<and>
    span_occurs p s str \<longrightarrow>
      (\<exists>a r b. str = a @ p @ r @ s @ b \<and>
         (\<forall>k<length a. \<not> prefix p (drop k str)) \<and>
         (\<forall>k<length r. \<not> prefix s (drop k (r @ s @ b))) \<and>
         parseReasoningFromString escapeRegex pu str =
           Some (if trim_spaces pu
                 then \<lparr>parsed_reasoning = trim r, parsed_content = trim (a @ b)\<rparr>
                 else \<lparr>parsed_reasoning = r, parsed_content = a @ b\<rparr>))) \<and>
   (reasoning_prefix pu = Some p \<and> p \<noteq> [] \<and> reasoning_suffix pu = Some s \<and> s \<noteq> [] \<and>
    str = a @ p @ r @ s @ b \<and>
    (\<forall>k<length a. \<not> prefix p (drop k str)) \<and>
    (\<forall>k<length r. \<not> prefix s (drop k (r @ s @ b))) \<longrightarrow>
      parseReasoningFromString escapeRegex pu str =
        Some (if trim_spaces pu
              then \<lparr>parsed_reasoning = trim r, parsed_content = trim (a @ b)\<rparr>
              else \<lparr>parsed_reasoning = r, parsed_content = a @ b\<rparr>)) \<and>
   parseReasoningFromString escapeRegex (demo_settings False) (js ''PRE abc SUF rest'') =
     Some \<lparr>parsed_reasoning = js '' abc '', parsed_content = js '' rest''\<rparr> \<and>
   parseReasoningFromString escapeRegex (demo_settings True) (js ''PRE abc SUF rest'') =
     Some \<lparr>parsed_reasoning = js ''abc'', parsed_content = js ''rest''\<rparr>"
proof (intro conjI impI)
  assume h: "reasoning_prefix pu = Some p \<and> p \<noteq> [] \<and> reasoning_suffix pu = Some s \<and> s \<noteq> [] \<and>
    span_occurs p s str"
  then obtain a r b where f: "find_first p str = Some (a, r @ s @ b)"
    and g: "find_first s (r @ s @ b) = Some (r, b)"
    using span_occurs_find by blast
  from find_first_Some [OF f] have "str = a @ p @ r @ s @ b"
    and "\<forall>k<length a. \<not> prefix p (drop k str)" by blast+
  moreover from find_first_Some [OF g] have "\<forall>k<length r. \<not> prefix s (drop k (r @ s @ b))"
    by blast
  moreover from h f g have "parseReasoningFromString escapeRegex pu str =
           Some (if trim_spaces pu
                 then \<lparr>parsed_reasoning = trim r, parsed_content = trim (a @ b)\<rparr>
                 else \<lparr>parsed_reasoning = r, parsed_content = a @ b\<rparr>)"
    by (simp add: parseReasoningFromString_eq)
  ultimately show "\<exists>a r b. str = a @ p @ r @ s @ b \<and>
         (\<forall>k<length a. \<not> prefix p (drop k str)) \<and>
         (\<forall>k<length r. \<not> prefix s (drop k (r @ s @ b))) \<and>
         parseReasoningFromString escapeRegex pu str =
           Some (if trim_spaces pu
                 then \<lparr>parsed_reasoning = trim r, parsed_content = trim (a @ b)\<rparr>
                 else \<lparr>parsed_reasoning = r, parsed_content = a @ b\<rparr>)"
    by blast
next
  assume h: "reasoning_prefix pu = Some p \<and> p \<noteq> [] \<and> reasoning_suffix pu = Some s \<and> s \<noteq> [] \<and>
    str = a @ p @ r @ s @ b \<and>
    (\<forall>k<length a. \<not> prefix p (drop k str)) \<and>
    (\<forall>k<length r. \<not> prefix s (drop k (r @ s @ b)))"
  then have "str = a @ p @ (r @ s @ b)" by simp
  with h have f: "find_first p str = Some (a, r @ s @ b)"
    by (intro find_first_first) blast+
  from h have g: "find_first s (r @ s @ b) = Some (r, b)"
    by (intro find_first_first) blast+
  from h f g show "parseReasoningFromString escapeRegex pu str =
        Some (if trim_spaces pu
              then \<lparr>parsed_reasoning = trim r, parsed_content = trim (a @ b)\<rparr>
              else \<lparr>parsed_reasoning = r, parsed_content = a @ b\<rparr>)"
    by (simp add: parseReasoningFromString_eq)
next
  show "parseReasoningFromString escapeRegex (demo_settings False) (js ''PRE abc SUF rest'') =
     Some \<lparr>parsed_reasoning = js '' abc '', parsed_content = js '' rest''\<rparr>"
    by (simp add: parse_eval)
next
  show "parseReasoningFromString escapeRegex (demo_settings True) (js ''PRE abc SUF rest'') =
     Some \<lparr>parsed_reasoning = js ''abc'', parsed_content = js ''rest''\<rparr>"
    by (simp add: parse_eval)
qed

theorem parse_first_lazy_span_witness:
  "(\<exists>a r b. js ''xPRE a SUF-PRE b SUF.'' = a @ js ''PRE'' @ r @ js ''SUF'' @ b \<and>
     (\<forall>k<length a. \<not> prefix (js ''PRE'') (drop k (js ''xPRE a SUF-PRE b SUF.''))) \<and>
     (\<forall>k<length r. \<not> prefix (js ''SUF'') (drop k (r @ js ''SUF'' @ b))) \<and>
     parseReasoningFromString escapeRegex (demo_settings True) (js ''xPRE a SUF-PRE b SUF.'') =
       Some \<lparr>parsed_reasoning = trim r, parsed_content = trim (a @ b)\<rparr>) \<and>
   parseReasoningFromString escapeRegex (demo_settings True) (js ''xPRE a SUF-PRE b SUF.'') =
     Some \<lparr>parsed_reasoning = js ''a'', parsed_content = js ''x-PRE b SUF.''\<rparr>"
proof -
  note general = parse_first_lazy_span [of "demo_settings True" "js ''PRE''" "js ''SUF''"
      "js ''xPRE a SUF-PRE b SUF.''" "js ''x''" "js '' a ''" "js ''-PRE b SUF.''"]
  have cfg: "reasoning_prefix (demo_settings True) = Some (js ''PRE'') \<and> js ''PRE'' \<noteq> [] \<and>
      reasoning_suffix (demo_settings True) = Some (js ''SUF'') \<and> js ''SUF'' \<noteq> []"
    and on: "trim_spaces (demo_settings True)"
    by (simp_all add: demo_settings_def js_simps)
  have split: "js ''xPRE a SUF-PRE b SUF.'' =
      js ''x'' @ js ''PRE'' @ js '' a '' @ js ''SUF'' @ js ''-PRE b SUF.''"
    by (simp add: js_simps)
  then have occurs: "span_occurs (js ''PRE'') (js ''SUF'') (js ''xPRE a SUF-PRE b SUF.'')"
    unfolding span_occurs_def by blast
  have first_prefix:
    "\<forall>k<length (js ''x''). \<not> prefix (js ''PRE'') (drop k (js ''xPRE a SUF-PRE b SUF.''))"
    by (simp add: js_simps)
  have first_suffix:
    "\<forall>k<length (js '' a ''). \<not> prefix (js ''SUF'')
        (drop k (js '' a '' @ js ''SUF'' @ js ''-PRE b SUF.''))"
    by (auto simp add: js_simps less_Suc_eq numeral_3_eq_3)
  from conjunct1 [OF general] cfg occurs on
  have ex: "\<exists>a r b. js ''xPRE a SUF-PRE b SUF.'' = a @ js ''PRE'' @ r @ js ''SUF'' @ b \<and>
     (\<forall>k<length a. \<not> prefix (js ''PRE'') (drop k (js ''xPRE a SUF-PRE b SUF.''))) \<and>
     (\<forall>k<length r. \<not> prefix (js ''SUF'') (drop k (r @ js ''SUF'' @ b))) \<and>
     parseReasoningFromString escapeRegex (demo_settings True) (js ''xPRE a SUF-PRE b SUF.'') =
       Some \<lparr>parsed_reasoning = trim r, parsed_content = trim (a @ b)\<rparr>"
    by simp
  from conjunct1 [OF conjunct2 [OF general]] cfg split first_prefix first_suffix on
  have "parseReasoningFromString escapeRegex (demo_settings True) (js ''xPRE a SUF-PRE b SUF.'') =
     Some \<lparr>parsed_reasoning = trim (js '' a ''),
           parsed_content = trim (js ''x'' @ js ''-PRE b SUF.'')\<rparr>"
    by simp
  moreover have "trim (js '' a '') = js ''a''"
    and "trim (js ''x'' @ js ''-PRE b SUF.'') = js ''x-PRE b SUF.''"
    by (simp_all add: trim_def isWhiteSpace_def js_simps)
  ultimately have "parseReasoningFromString escapeRegex (demo_settings True)
      (js ''xPRE a SUF-PRE b SUF.'') =
     Some \<lparr>parsed_reasoning = js ''a'', parsed_content = js ''x-PRE b SUF.''\<rparr>"
    by simp
  with ex show ?thesis by blast
qed

text \<open>
  C7. The result is \<^verbatim>\<open>null\<close> whenever the prefix or the suffix is unset or empty,
  whatever the escaping function is; an exception of the \<^verbatim>\<open>RegExp\<close> constructor
  becomes the result \<^verbatim>\<open>null\<close>; the escaped prefix and suffix are read by the
  constructor as the literal prefix and suffix around the group, so that with
  \<^verbatim>\<open>escapeRegex\<close> the result is \<^verbatim>\<open>null\<close> only for an unset or empty prefix or suffix.
\<close>

theorem parse_null_and_escaping:
  "(reasoning_prefix pu = None \<or> reasoning_prefix pu = Some [] \<or>
    reasoning_suffix pu = None \<or> reasoning_suffix pu = Some [] \<longrightarrow>
      parseReasoningFromString esc pu str = None) \<and>
   (RegExp (esc (the (reasoning_prefix pu)) @ js ''(.*?)'' @ esc (the (reasoning_suffix pu))) = Inl e
      \<longrightarrow> parseReasoningFromString esc pu str = None) \<and>
   RegExp (escapeRegex p @ js ''(.*?)'' @ escapeRegex s) =
     Inr (map PatternCharacter p @ LazyDotAllGroup # map PatternCharacter s) \<and>
   (parseReasoningFromString escapeRegex pu str = None \<longleftrightarrow>
      reasoning_prefix pu = None \<or> reasoning_prefix pu = Some [] \<or>
      reasoning_suffix pu = None \<or> reasoning_suffix pu = Some [])"
proof (intro conjI impI)
  assume "reasoning_prefix pu = None \<or> reasoning_prefix pu = Some [] \<or>
    reasoning_suffix pu = None \<or> reasoning_suffix pu = Some []"
  then show "parseReasoningFromString esc pu str = None"
    by (auto simp add: parseReasoningFromString_def falsy_iff)
next
  assume "RegExp (esc (the (reasoning_prefix pu)) @ js ''(.*?)'' @ esc (the (reasoning_suffix pu))) = Inl e"
  then show "parseReasoningFromString esc pu str = None"
    by (simp add: parseReasoningFromString_def)
next
  show "RegExp (escapeRegex p @ js ''(.*?)'' @ escapeRegex s) =
     Inr (map PatternCharacter p @ LazyDotAllGroup # map PatternCharacter s)"
    by (rule RegExp_source)
next
  show "parseReasoningFromString escapeRegex pu str = None \<longleftrightarrow>
      reasoning_prefix pu = None \<or> reasoning_prefix pu = Some [] \<or>
      reasoning_suffix pu = None \<or> reasoning_suffix pu = Some []"
    by (simp add: parse_None_iff falsy_iff disj_ac)
qed

theorem parse_null_and_escaping_witness:
  "parseReasoningFromString escapeRegex ((demo_settings False)\<lparr>reasoning_prefix := None\<rparr>)
     (js ''PRE abc SUF rest'') = None \<and>
   parseReasoningFromString escapeRegex ((demo_settings False)\<lparr>reasoning_suffix := Some []\<rparr>)
     (js ''PRE abc SUF rest'') = None \<and>
   RegExp (js ''((.*?)SUF'') = Inl SyntaxError \<and>
   parseReasoningFromString id ((demo_settings False)\<lparr>reasoning_prefix := Some (js ''('')\<rparr>)
     (js ''( abc SUF rest'') = None \<and>
   parseReasoningFromString escapeRegex ((demo_settings False)\<lparr>reasoning_prefix := Some (js ''('')\<rparr>)
     (js ''( abc SUF rest'') \<noteq> None"
  using
    parse_null_and_escaping [of "(demo_settings False)\<lparr>reasoning_prefix := None\<rparr>" escapeRegex
      "js ''PRE abc SUF rest''"]
    parse_null_and_escaping [of "(demo_settings False)\<lparr>reasoning_suffix := Some []\<rparr>" escapeRegex
      "js ''PRE abc SUF rest''"]
    parse_null_and_escaping [of "(demo_settings False)\<lparr>reasoning_prefix := Some (js ''('')\<rparr>" id
      "js ''( abc SUF rest''" SyntaxError]
  by (simp add: demo_settings_def js_simps isSyntaxCharacter_def)

text \<open>
  C8. If a first call returns a result whose content holds no further prefix
  followed by suffix, a second call on that content returns the content unchanged
  and the empty reasoning.
\<close>

theorem parse_idempotent_on_content:
  "parseReasoningFromString escapeRegex pu str = Some res \<and>
   \<not> span_occurs (the (reasoning_prefix pu)) (the (reasoning_suffix pu)) (parsed_content res) \<longrightarrow>
     parseReasoningFromString escapeRegex pu (parsed_content res) =
       Some \<lparr>parsed_reasoning = [], parsed_content = parsed_content res\<rparr>"
proof
  assume h: "parseReasoningFromString escapeRegex pu str = Some res \<and>
   \<not> span_occurs (the (reasoning_prefix pu)) (the (reasoning_suffix pu)) (parsed_content res)"
  then have "\<not> (falsy (reasoning_prefix pu) \<or> falsy (reasoning_suffix pu))"
    using parse_None_iff [of pu str] by simp
  then obtain p s where c: "reasoning_prefix pu = Some p" "p \<noteq> []"
    "reasoning_suffix pu = Some s" "s \<noteq> []"
    by (auto simp add: falsy_iff)
  with h have "\<not> span_occurs p s (parsed_content res)" by simp
  from parse_no_span [OF c this]
  show "parseReasoningFromString escapeRegex pu (parsed_content res) =
       Some \<lparr>parsed_reasoning = [], parsed_content = parsed_content res\<rparr>" .
qed

theorem parse_idempotent_on_content_witness:
  "parseReasoningFromString escapeRegex (demo_settings True) (js ''PRE abc SUF rest'') =
     Some \<lparr>parsed_reasoning = js ''abc'', parsed_content = js ''rest''\<rparr> \<and>
   parseReasoningFromString escapeRegex (demo_settings True) (js ''rest'') =
     Some \<lparr>parsed_reasoning = [], parsed_content = js ''rest''\<rparr>"
proof -
  have p: "parseReasoningFromString escapeRegex (demo_settings True) (js ''PRE abc SUF rest'') =
     Some \<lparr>parsed_reasoning = js ''abc'', parsed_content = js ''rest''\<rparr>"
    by (simp add: parse_eval)
  have "\<not> span_occurs (js ''PRE'') (js ''SUF'') (js ''rest'')"
    using span_occurs_set [of "js ''PRE''" "js ''SUF''" "js ''rest''"]
    by (auto simp add: js_simps)
  with p parse_idempotent_on_content [of "demo_settings True" "js ''PRE abc SUF rest''"
      "\<lparr>parsed_reasoning = js ''abc'', parsed_content = js ''rest''\<rparr>"]
  show ?thesis by (simp add: demo_settings_def)
qed

end
